theory Spec2Isabelle
  imports Main "HOL-Library.Word"
begin

section \<open>Strings, bytes and the values of the result dictionary\<close>

text \<open>
  A Python \<open>str\<close> is a sequence of Unicode code points; \<open>len\<close> counts code points.
  A code point is a natural number, a \<open>str\<close> a list of them. A file holds bytes.
  The literals of the source are ASCII; \<open>ascii\<close> gives the code points of one.
\<close>

type_synonym ustr = "nat list"

type_synonym byte = "8 word"

definition ascii :: "string \<Rightarrow> ustr" where
  "ascii s = map of_char s"

text \<open>
  The values stored in the dictionary that \<open>process_file\<close> builds are strings and
  (unbounded) integers. A \<open>dict\<close> keeps insertion order, which \<open>output_text\<close> and
  \<open>json.dumps\<close> both follow: it is an association list.
\<close>

datatype pyval = PStr ustr | PInt int

type_synonym pydict = "(ustr \<times> pyval) list"

section \<open>The runtime operations that \<open>process_file\<close> calls\<close>

subsection \<open>Strict UTF-8 decoding\<close>

text \<open>
  \<open>read_text(encoding="utf-8")\<close> decodes with the strict error handler: the bytes
  must be well-formed UTF-8 (no overlong form, no surrogate, nothing above U+10FFFF),
  or \<open>UnicodeDecodeError\<close> is raised (\<open>None\<close> here).
\<close>

definition in_range :: "byte \<Rightarrow> byte \<Rightarrow> byte \<Rightarrow> bool" where
  "in_range lo hi b \<longleftrightarrow> lo \<le> b \<and> b \<le> hi"

definition trail :: "byte \<Rightarrow> nat" where
  "trail b = unat b - 128"

fun utf8_decode :: "byte list \<Rightarrow> ustr option" where
  "utf8_decode [] = Some []"
| "utf8_decode (b # bs) =
     (if b < 0x80 then map_option (Cons (unat b)) (utf8_decode bs)
      else if in_range 0xC2 0xDF b then
        (case bs of
           c1 # r \<Rightarrow>
             if in_range 0x80 0xBF c1
             then map_option (Cons ((unat b - 192) * 64 + trail c1)) (utf8_decode r)
             else None
         | _ \<Rightarrow> None)
      else if in_range 0xE0 0xEF b then
        (case bs of
           c1 # c2 # r \<Rightarrow>
             if in_range (if b = 0xE0 then 0xA0 else 0x80) (if b = 0xED then 0x9F else 0xBF) c1
                \<and> in_range 0x80 0xBF c2
             then map_option (Cons ((unat b - 224) * 4096 + trail c1 * 64 + trail c2))
                    (utf8_decode r)
             else None
         | _ \<Rightarrow> None)
      else if in_range 0xF0 0xF4 b then
        (case bs of
           c1 # c2 # c3 # r \<Rightarrow>
             if in_range (if b = 0xF0 then 0x90 else 0x80) (if b = 0xF4 then 0x8F else 0xBF) c1
                \<and> in_range 0x80 0xBF c2 \<and> in_range 0x80 0xBF c3
             then map_option
                    (Cons ((unat b - 240) * 262144 + trail c1 * 4096 + trail c2 * 64 + trail c3))
                    (utf8_decode r)
             else None
         | _ \<Rightarrow> None)
      else None)"

subsection \<open>Universal newlines on reading\<close>

text \<open>
  \<open>Path.read_text\<close> opens the file in text mode with \<open>newline=None\<close>: on input,
  every \<open>\r\n\<close> and every remaining \<open>\r\<close> is translated into \<open>\n\<close> before the text
  reaches the caller.
\<close>

fun translate_newlines :: "ustr \<Rightarrow> ustr" where
  "translate_newlines [] = []"
| "translate_newlines [c] = [if c = 13 then 10 else c]"
| "translate_newlines (c # d # cs) =
     (if c = 13 \<and> d = 10 then 10 # translate_newlines cs
      else if c = 13 then 10 # translate_newlines (d # cs)
      else c # translate_newlines (d # cs))"

subsection \<open>\<open>str.splitlines\<close> and \<open>str.split\<close>\<close>

text \<open>
  The line boundaries of \<open>str.splitlines\<close>: \<open>\n\<close>, \<open>\v\<close>, \<open>\f\<close>, \<open>\r\<close>, the
  separators \<open>\x1c\<close>, \<open>\x1d\<close>, \<open>\x1e\<close>, NEL \<open>\x85\<close>, and the line and paragraph
  separators U+2028 and U+2029.
\<close>

definition is_linebreak :: "nat \<Rightarrow> bool" where
  "is_linebreak c \<longleftrightarrow> c \<in> {0x0A, 0x0B, 0x0C, 0x0D, 0x1C, 0x1D, 0x1E, 0x85, 0x2028, 0x2029}"

text \<open>
  One round of the loop of \<open>splitlines\<close> scans to the next line boundary, emits the
  segment before it and steps over the boundary, \<open>\r\n\<close> counting as one. The loop
  runs while characters remain, so no empty segment follows a final boundary.
\<close>

fun skip_break :: "ustr \<Rightarrow> ustr" where
  "skip_break [] = []"
| "skip_break (c # cs) =
     (if c = 13 then (case cs of d # ds \<Rightarrow> if d = 10 then ds else cs | [] \<Rightarrow> cs) else cs)"

lemma length_skip_break: "length (skip_break s) \<le> length s"
  by (cases s) (auto split: list.splits)

lemma length_skip_break_dropWhile:
  assumes "s \<noteq> []"
  shows "length (skip_break (dropWhile P s)) < length s"
proof (cases "dropWhile P s")
  case Nil
  have "length (skip_break (dropWhile P s)) = 0"
    unfolding Nil by simp
  with assms show ?thesis by simp
next
  case (Cons c cs)
  have "length (skip_break (c # cs)) \<le> length cs"
    by (auto split: list.splits)
  moreover have "length (c # cs) \<le> length s"
    using Cons length_dropWhile_le [of P s] by simp
  ultimately show ?thesis using Cons by simp
qed

function splitlines :: "ustr \<Rightarrow> ustr list" where
  "splitlines s =
     (if s = [] then []
      else takeWhile (\<lambda>c. \<not> is_linebreak c) s
             # splitlines (skip_break (dropWhile (\<lambda>c. \<not> is_linebreak c) s)))"
  by pat_completeness auto
termination
  by (relation "measure length") (auto simp: length_skip_break_dropWhile)

declare splitlines.simps [simp del]

text \<open>
  \<open>str.isspace\<close> for one character: the code points whose bidirectional class is WS,
  B or S, or whose category is Zs.
\<close>

definition is_space :: "nat \<Rightarrow> bool" where
  "is_space c \<longleftrightarrow>
     (0x09 \<le> c \<and> c \<le> 0x0D) \<or> (0x1C \<le> c \<and> c \<le> 0x20) \<or> c = 0x85 \<or> c = 0xA0
     \<or> c = 0x1680 \<or> (0x2000 \<le> c \<and> c \<le> 0x200A) \<or> c = 0x2028 \<or> c = 0x2029
     \<or> c = 0x202F \<or> c = 0x205F \<or> c = 0x3000"

text \<open>
  \<open>str.split()\<close> with no separator: skip the whitespace, stop at the end, otherwise
  emit the run of non-whitespace characters and start over.
\<close>

function split_ws :: "ustr \<Rightarrow> ustr list" where
  "split_ws s =
     (let t = dropWhile is_space s in
      if t = [] then []
      else takeWhile (\<lambda>c. \<not> is_space c) t # split_ws (dropWhile (\<lambda>c. \<not> is_space c) t))"
  by pat_completeness auto
termination
proof (relation "measure length", simp, goal_cases)
  case (1 s t)
  then obtain c cs where t: "dropWhile is_space s = c # cs" and "\<not> is_space c"
    by (metis hd_dropWhile list.exhaust list.sel(1))
  then have "length (dropWhile (\<lambda>c. \<not> is_space c) (dropWhile is_space s)) \<le> length cs"
    using length_dropWhile_le [of "\<lambda>c. \<not> is_space c" cs] by simp
  moreover have "length (c # cs) \<le> length s"
    using t length_dropWhile_le [of is_space s] by simp
  ultimately show ?case using 1 by simp
qed

declare split_ws.simps [simp del]

section \<open>The environment of one run\<close>

text \<open>
  A path is the word given on the command line; \<open>str_path\<close> is the text that \<open>str\<close>
  gives for the \<open>Path\<close> built from it (the pathlib flavour of the platform normalises
  separators). A node of the file system has a kind and the outcome of reading it whole.
  \<open>os.stat\<close> on a path finds its node or fails: \<open>nodes\<close> gives the node found, and
  where there is none \<open>stat_errno\<close> is the error number of the failure (2, ENOENT, for
  a path that is simply absent; 36, ENAMETOOLONG, for a name longer than the file system
  allows; 13, EACCES, below a directory that may not be searched).
  Writing to a path and printing to standard output can raise as well; which calls do
  is a matter of the environment. Writing to the error stream is taken to succeed.
\<close>

type_synonym path = ustr

datatype exc = OSError nat | UnicodeDecodeError | UnicodeEncodeError

datatype kind = RegularFile | Directory | Special

record node =
  node_kind :: kind
  node_read :: "exc + byte list"

record world =
  environ :: "ustr \<Rightarrow> ustr option"
  str_path :: "path \<Rightarrow> ustr"
  nodes :: "path \<Rightarrow> node option"
  stat_errno :: "path \<Rightarrow> nat"
  write_fault :: "path \<Rightarrow> ustr \<Rightarrow> exc option"
  print_fault :: "ustr \<Rightarrow> exc option"

text \<open>
  \<open>Path.exists\<close> and \<open>Path.is_file\<close> call \<open>stat\<close>. When it fails with ENOENT,
  ENOTDIR, EBADF or ELOOP (2, 20, 9 and 40) they answer \<open>False\<close>; every other
  \<open>OSError\<close> they raise again.
\<close>

definition ignore_error :: "nat \<Rightarrow> bool" where
  "ignore_error n \<longleftrightarrow> n \<in> {2, 20, 9, 40}"

definition exists :: "world \<Rightarrow> path \<Rightarrow> exc + bool" where
  "exists w p =
     (case nodes w p of
        Some n \<Rightarrow> Inr True
      | None \<Rightarrow>
          if ignore_error (stat_errno w p) then Inr False else Inl (OSError (stat_errno w p)))"

definition is_file :: "world \<Rightarrow> path \<Rightarrow> exc + bool" where
  "is_file w p =
     (case nodes w p of
        Some n \<Rightarrow> Inr (node_kind n = RegularFile)
      | None \<Rightarrow>
          if ignore_error (stat_errno w p) then Inr False else Inl (OSError (stat_errno w p)))"

definition read_text :: "world \<Rightarrow> path \<Rightarrow> exc + ustr" where
  "read_text w p =
     (case nodes w p of
        None \<Rightarrow> Inl (OSError (stat_errno w p))
      | Some n \<Rightarrow>
          (case node_read n of
             Inl e \<Rightarrow> Inl e
           | Inr bs \<Rightarrow>
               (case utf8_decode bs of
                  None \<Rightarrow> Inl UnicodeDecodeError
                | Some s \<Rightarrow> Inr (translate_newlines s))))"

text \<open>The module-level \<open>DEBUG\<close>: the environment variable compared with \<open>"1"\<close>.\<close>

definition DEBUG :: "world \<Rightarrow> bool" where
  "DEBUG w \<longleftrightarrow>
     (case environ w (ascii ''OPEN_AGENT_DEBUG'') of None \<Rightarrow> ascii ''0'' | Some v \<Rightarrow> v)
       = ascii ''1''"

section \<open>Helper functions\<close>

text \<open>
  A log message is an f-string: the list of its literal and interpolated parts. The
  text of an interpolated exception and the \<open>repr\<close> of the result dictionary are left
  to the runtime. The error stream is the list of the lines logged, in order.
\<close>

datatype frag = Lit string | Str ustr | Repr pydict | ExcStr exc

datatype log_line =
    LDEBUG "frag list"
  | LINFO "frag list"
  | LERROR "frag list"
  | TRACEBACK exc
  | USAGE_ERROR

definition log_debug :: "bool \<Rightarrow> frag list \<Rightarrow> log_line list" where
  "log_debug debug message = (if debug then [LDEBUG message] else [])"

definition log_error :: "frag list \<Rightarrow> log_line list" where
  "log_error message = [LERROR message]"

definition log_info :: "frag list \<Rightarrow> log_line list" where
  "log_info message = [LINFO message]"

subsection \<open>\<open>str\<close> of an integer and of a value\<close>

function digits :: "nat \<Rightarrow> ustr" where
  "digits n = (if n < 10 then [48 + n] else digits (n div 10) @ [48 + n mod 10])"
  by pat_completeness auto
termination
  by (relation "measure id") auto

declare digits.simps [simp del]

definition str_int :: "int \<Rightarrow> ustr" where
  "str_int i = (if i < 0 then 45 # digits (nat (- i)) else digits (nat i))"

fun str_val :: "pyval \<Rightarrow> ustr" where
  "str_val (PStr s) = s"
| "str_val (PInt i) = str_int i"

fun join :: "ustr \<Rightarrow> ustr list \<Rightarrow> ustr" where
  "join sep [] = []"
| "join sep [x] = x"
| "join sep (x # y # ys) = x @ sep @ join sep (y # ys)"

subsection \<open>\<open>output_text\<close>\<close>

definition output_text :: "pydict \<Rightarrow> ustr" where
  "output_text data = join [10] (map (\<lambda>(key, v). key @ ascii '': '' @ str_val v) data)"

subsection \<open>\<open>output_json\<close>: \<open>json.dumps(data, indent=2, ensure_ascii=False)\<close>\<close>

text \<open>
  With \<open>ensure_ascii=False\<close> a string is written between double quotes with only the
  quote, the backslash and the control characters below U+0020 escaped: the short
  escapes for backspace, form feed, line feed, carriage return and tab, and
  \<open>\u00XX\<close> in lower-case hexadecimal for the others.
\<close>

definition hex_digit :: "nat \<Rightarrow> nat" where
  "hex_digit n = (if n < 10 then 48 + n else 87 + n)"

definition escape_char :: "nat \<Rightarrow> ustr" where
  "escape_char c =
     (if c = 34 then [92, 34]
      else if c = 92 then [92, 92]
      else if c = 8 then [92, 98]
      else if c = 12 then [92, 102]
      else if c = 10 then [92, 110]
      else if c = 13 then [92, 114]
      else if c = 9 then [92, 116]
      else if c < 32 then [92, 117, 48, 48, hex_digit (c div 16), hex_digit (c mod 16)]
      else [c])"

definition json_string :: "ustr \<Rightarrow> ustr" where
  "json_string s = 34 # concat (map escape_char s) @ [34]"

fun json_value :: "pyval \<Rightarrow> ustr" where
  "json_value (PStr s) = json_string s"
| "json_value (PInt i) = str_int i"

text \<open>
  A dictionary at the top level with \<open>indent=2\<close>: \<open>{}\<close> when empty; otherwise one
  item per line, indented by two spaces, \<open>: \<close> between key and value, a comma after
  every item but the last, and the closing brace on a line of its own.
\<close>

definition json_item :: "ustr \<times> pyval \<Rightarrow> ustr" where
  "json_item kv = json_string (fst kv) @ ascii '': '' @ json_value (snd kv)"

definition output_json :: "pydict \<Rightarrow> ustr" where
  "output_json data =
     (if data = [] then ascii ''{}''
      else ascii ''{'' @ [10, 32, 32] @ join (44 # [10, 32, 32]) (map json_item data)
             @ [10] @ ascii ''}'')"

section \<open>Main logic\<close>

text \<open>
  \<open>process_file\<close> gives the lines it logged and either the exception that
  \<open>read_text\<close> raised or the result dictionary. \<open>debug\<close> is the value of the global
  \<open>DEBUG\<close> at the call.
\<close>

definition process_file :: "world \<Rightarrow> bool \<Rightarrow> path \<Rightarrow> log_line list \<times> (exc + pydict)" where
  "process_file w debug input_path =
     (let log1 = log_debug debug [Lit ''Processing file: '', Str (str_path w input_path)] in
      case read_text w input_path of
        Inl e \<Rightarrow> (log1, Inl e)
      | Inr content \<Rightarrow>
          (let lines = splitlines content;
               words = split_ws content;
               result =
                 [(ascii ''file'', PStr (str_path w input_path)),
                  (ascii ''lines'', PInt (int (length lines))),
                  (ascii ''words'', PInt (int (length words))),
                  (ascii ''characters'', PInt (int (length content))),
                  (ascii ''encoding'', PStr (ascii ''utf-8'')),
                  (ascii ''status'', PStr (ascii ''success''))]
           in (log1 @ log_debug debug [Lit ''Processing complete: '', Repr result], Inr result)))"

section \<open>The command line\<close>

text \<open>
  \<open>argparse\<close> first resolves every word of the command line: a word is an occurrence
  of one of the four options (spelled in full, abbreviated or in a cluster of short
  options, with or without an argument attached to it), a plain argument, or
  option-like without being an option of this parser. The command line is the list of
  its resolved words.
\<close>

datatype opt = Help | Output | Format | Verbose

datatype token =
    Option opt "ustr option"
  | Arg ustr
  | Unrecognized ustr

record args =
  input_file :: path
  output_opt :: "path option"
  format :: ustr
  verbose :: bool

text \<open>
  The outcome of \<open>parse_args\<close>: the namespace, or the exit that \<open>argparse\<close> takes
  itself: status 0 after printing the help, status 2 after reporting an error
  (\<open>ArgumentParser.error\<close>).
\<close>

datatype parsed = Namespace args | SystemExit int

text \<open>
  The namespace while it is filled: the positional, if seen; the options with the
  defaults of \<open>add_argument\<close>; the words left over.
\<close>

record partial =
  p_input :: "path option"
  p_output :: "path option"
  p_format :: ustr
  p_verbose :: bool
  p_extras :: "ustr list"

definition defaults :: partial where
  "defaults = \<lparr>p_input = None, p_output = None, p_format = ascii ''json'', p_verbose = False,
                p_extras = []\<rparr>"

definition choices :: "ustr list" where
  "choices = [ascii ''json'', ascii ''text'']"

definition finish :: "partial \<Rightarrow> parsed" where
  "finish ns =
     (case p_input ns of
        None \<Rightarrow> SystemExit 2
      | Some p \<Rightarrow>
          if p_extras ns \<noteq> [] then SystemExit 2
          else Namespace \<lparr>input_file = p, output_opt = p_output ns, format = p_format ns,
                           verbose = p_verbose ns\<rparr>)"

definition set_format :: "partial \<Rightarrow> ustr \<Rightarrow> partial option" where
  "set_format ns v = (if v \<in> set choices then Some (ns\<lparr>p_format := v\<rparr>) else None)"

text \<open>
  The words are consumed from left to right. An option that takes an argument uses the
  one attached to it, or else the next word, which must be a plain argument. A flag
  rejects an attached argument. The first plain argument is the positional; further
  ones and unrecognized options are reported once the whole line has been consumed.
\<close>

fun consume :: "partial \<Rightarrow> token list \<Rightarrow> parsed" where
  "consume ns [] = finish ns"
| "consume ns (Option Help None # ts) = SystemExit 0"
| "consume ns (Option Help (Some v) # ts) = SystemExit 2"
| "consume ns (Option Verbose None # ts) = consume (ns\<lparr>p_verbose := True\<rparr>) ts"
| "consume ns (Option Verbose (Some v) # ts) = SystemExit 2"
| "consume ns (Option Output (Some v) # ts) = consume (ns\<lparr>p_output := Some v\<rparr>) ts"
| "consume ns (Option Output None # Arg v # ts) = consume (ns\<lparr>p_output := Some v\<rparr>) ts"
| "consume ns (Option Output None # ts) = SystemExit 2"
| "consume ns (Option Format (Some v) # ts) =
     (case set_format ns v of None \<Rightarrow> SystemExit 2 | Some ns' \<Rightarrow> consume ns' ts)"
| "consume ns (Option Format None # Arg v # ts) =
     (case set_format ns v of None \<Rightarrow> SystemExit 2 | Some ns' \<Rightarrow> consume ns' ts)"
| "consume ns (Option Format None # ts) = SystemExit 2"
| "consume ns (Arg v # ts) =
     (case p_input ns of
        None \<Rightarrow> consume (ns\<lparr>p_input := Some v\<rparr>) ts
      | Some p \<Rightarrow> consume (ns\<lparr>p_extras := p_extras ns @ [v]\<rparr>) ts)"
| "consume ns (Unrecognized v # ts) = consume (ns\<lparr>p_extras := p_extras ns @ [v]\<rparr>) ts"

definition parse_args :: "token list \<Rightarrow> parsed" where
  "parse_args argv = consume defaults argv"

section \<open>The entry point\<close>

text \<open>
  What a run leaves behind: the exit status, the lines on the error stream, what was
  printed on standard output and what was written to files.
\<close>

datatype printed = Text ustr | HelpText

record outcome =
  exit_code :: int
  stderr :: "log_line list"
  stdout :: "printed list"
  written :: "(path \<times> ustr) list"

text \<open>The \<open>except Exception\<close> clause of \<open>main\<close>, entered after \<open>logged\<close>.\<close>

definition handler :: "bool \<Rightarrow> log_line list \<Rightarrow> exc \<Rightarrow> outcome" where
  "handler debug logged e =
     \<lparr>exit_code = 3,
      stderr = logged @ log_error [Lit ''Processing error: '', ExcStr e]
                 @ (if debug then [TRACEBACK e] else []),
      stdout = [], written = []\<rparr>"

text \<open>
  An exception that no clause of \<open>main\<close> catches leaves the program: the interpreter
  prints the traceback and exits with status 1.
\<close>

definition uncaught :: "exc \<Rightarrow> outcome" where
  "uncaught e = \<lparr>exit_code = 1, stderr = [TRACEBACK e], stdout = [], written = []\<rparr>"

text \<open>
  \<open>main\<close> after \<open>parse_args\<close> has returned. The global \<open>DEBUG\<close> is raised by
  \<open>--verbose\<close> and passed on explicitly. The two tests of the input path stand
  before the \<open>try\<close>, so what they raise is not caught. A \<open>Path\<close> is always true, so
  the test \<open>if args.output\<close> (the field \<open>output_opt\<close>) asks whether an output path
  was given.
\<close>

definition run :: "world \<Rightarrow> args \<Rightarrow> outcome" where
  "run w a =
     (let debug = (DEBUG w \<or> verbose a) in
      case exists w (input_file a) of
        Inl e \<Rightarrow> uncaught e
      | Inr found \<Rightarrow>
      if \<not> found then
        \<lparr>exit_code = 2,
         stderr = log_error [Lit ''Input file not found: '', Str (str_path w (input_file a))],
         stdout = [], written = []\<rparr>
      else
      case is_file w (input_file a) of
        Inl e \<Rightarrow> uncaught e
      | Inr regular \<Rightarrow>
      if \<not> regular then
        \<lparr>exit_code = 1,
         stderr = log_error [Lit ''Not a file: '', Str (str_path w (input_file a))],
         stdout = [], written = []\<rparr>
      else
        (let log0 = log_info [Lit ''Processing '', Str (str_path w (input_file a)), Lit ''...''];
             (log1, r) = process_file w debug (input_file a)
         in case r of
              Inl e \<Rightarrow> handler debug (log0 @ log1) e
            | Inr result \<Rightarrow>
                (let out = (if format a = ascii ''json'' then output_json result
                            else output_text result)
                 in case output_opt a of
                      Some target \<Rightarrow>
                        (case write_fault w target out of
                           Some e \<Rightarrow> handler debug (log0 @ log1) e
                         | None \<Rightarrow>
                             \<lparr>exit_code = 0,
                              stderr = log0 @ log1
                                @ log_info [Lit ''Output written to '', Str (str_path w target)],
                              stdout = [], written = [(target, out)]\<rparr>)
                    | None \<Rightarrow>
                        (case print_fault w out of
                           Some e \<Rightarrow> handler debug (log0 @ log1) e
                         | None \<Rightarrow>
                             \<lparr>exit_code = 0, stderr = log0 @ log1,
                              stdout = [Text (out @ [10])], written = []\<rparr>))))"

definition main :: "world \<Rightarrow> token list \<Rightarrow> outcome" where
  "main w argv =
     (case parse_args argv of
        SystemExit code \<Rightarrow>
          \<lparr>exit_code = code, stderr = (if code = 0 then [] else [USAGE_ERROR]),
           stdout = (if code = 0 then [HelpText] else []), written = []\<rparr>
      | Namespace a \<Rightarrow> run w a)"

section \<open>Worlds for concrete runs\<close>

definition quiet_world :: world where
  "quiet_world = \<lparr>environ = (\<lambda>_. None), str_path = (\<lambda>p. p), nodes = (\<lambda>_. None),
                   stat_errno = (\<lambda>_. 2),
                   write_fault = (\<lambda>_ _. None), print_fault = (\<lambda>_. None)\<rparr>"

definition put_node :: "world \<Rightarrow> path \<Rightarrow> node \<Rightarrow> world" where
  "put_node w p n = w\<lparr>nodes := (nodes w)(p \<mapsto> n)\<rparr>"

definition put_file :: "world \<Rightarrow> path \<Rightarrow> byte list \<Rightarrow> world" where
  "put_file w p bs = put_node w p \<lparr>node_kind = RegularFile, node_read = Inr bs\<rparr>"

text \<open>The world in which \<open>stat\<close> fails on \<open>p\<close> because the name is too long.\<close>

definition name_too_long :: "world \<Rightarrow> path \<Rightarrow> world" where
  "name_too_long w p = w\<lparr>nodes := (nodes w)(p := None), stat_errno := (stat_errno w)(p := 36)\<rparr>"

text \<open>A file name of 256 letters \<open>a\<close>, one more than most file systems allow.\<close>

definition long_name :: path where
  "long_name = replicate 256 97"

definition read_only :: "world \<Rightarrow> world" where
  "read_only w = w\<lparr>write_fault := (\<lambda>_ _. Some (OSError 13))\<rparr>"

text \<open>The seven bytes of \<open>"a b\ncd\n"\<close>.\<close>

definition sample :: "byte list" where
  "sample = [0x61, 0x20, 0x62, 0x0A, 0x63, 0x64, 0x0A]"

section \<open>The notions the properties are stated with\<close>

text \<open>
  The dictionary that \<open>process_file\<close> returns, as a function of its four varying
  fields.
\<close>

definition analysis_result :: "ustr \<Rightarrow> int \<Rightarrow> int \<Rightarrow> int \<Rightarrow> pydict" where
  "analysis_result file lines words characters =
     [(ascii ''file'', PStr file), (ascii ''lines'', PInt lines), (ascii ''words'', PInt words),
      (ascii ''characters'', PInt characters), (ascii ''encoding'', PStr (ascii ''utf-8'')),
      (ascii ''status'', PStr (ascii ''success''))]"

text \<open>
  Splitting at separators, as a specification rather than a loop: \<open>split_at P s\<close>
  is the list of the segments of \<open>s\<close> between the characters that satisfy \<open>P\<close>; a
  text with k separators has k + 1 segments, some of them possibly empty.
\<close>

fun cons_first :: "nat \<Rightarrow> ustr list \<Rightarrow> ustr list" where
  "cons_first c [] = [[c]]"
| "cons_first c (seg # segs) = (c # seg) # segs"

fun split_at :: "(nat \<Rightarrow> bool) \<Rightarrow> ustr \<Rightarrow> ustr list" where
  "split_at P [] = [[]]"
| "split_at P (c # cs) = (if P c then [] # split_at P cs else cons_first c (split_at P cs))"

text \<open>The tokens of a whitespace split: the segments between whitespace that are not empty.\<close>

definition whitespace_tokens :: "ustr \<Rightarrow> ustr list" where
  "whitespace_tokens s = filter (\<lambda>t. t \<noteq> []) (split_at is_space s)"

text \<open>
  The lines of a text for a set \<open>B\<close> of one-character line separators: the segments
  between separators, where a \<open>\r\<close> directly followed by \<open>\n\<close> is a single
  separator, without the empty segment that follows a final separator.
  \<open>universal_newline\<close> is the set with \<open>\n\<close> and \<open>\r\<close> only.
\<close>

fun line_segments :: "(nat \<Rightarrow> bool) \<Rightarrow> ustr \<Rightarrow> ustr list" where
  "line_segments B [] = [[]]"
| "line_segments B [c] = (if B c then [[], []] else [[c]])"
| "line_segments B (c # d # cs) =
     (if B c \<and> c = 13 \<and> d = 10 then [] # line_segments B cs
      else if B c then [] # line_segments B (d # cs)
      else cons_first c (line_segments B (d # cs)))"

definition drop_final_empty :: "ustr list \<Rightarrow> ustr list" where
  "drop_final_empty segs = (if segs \<noteq> [] \<and> last segs = [] then butlast segs else segs)"

definition universal_newline :: "nat \<Rightarrow> bool" where
  "universal_newline c \<longleftrightarrow> c = 10 \<or> c = 13"

definition lines_of :: "(nat \<Rightarrow> bool) \<Rightarrow> ustr \<Rightarrow> ustr list" where
  "lines_of B s = drop_final_empty (line_segments B s)"

text \<open>The number of places where \<open>\r\<close> is directly followed by \<open>\n\<close>.\<close>

fun crlf_count :: "ustr \<Rightarrow> nat" where
  "crlf_count (c # d # cs) = (if c = 13 \<and> d = 10 then 1 else 0) + crlf_count (d # cs)"
| "crlf_count _ = 0"

subsection \<open>Reading JSON back\<close>

text \<open>
  The text is read back as \<open>json.loads\<close> reads it, for a top-level object whose
  values are strings and integers; every other text gives \<open>None\<close> (a syntax error,
  or a value that the result dictionary never holds: a float, a list, a nested object,
  \<open>true\<close>, \<open>false\<close>, \<open>null\<close>). White space is space, tab, line feed and
  carriage return.
\<close>

definition is_json_ws :: "nat \<Rightarrow> bool" where
  "is_json_ws c \<longleftrightarrow> c = 32 \<or> c = 9 \<or> c = 10 \<or> c = 13"

definition skip_ws :: "ustr \<Rightarrow> ustr" where
  "skip_ws s = dropWhile is_json_ws s"

text \<open>
  A string is scanned from behind its opening quote up to the closing one. A backslash
  introduces a short escape or \<open>\uXXXX\<close>; a high surrogate followed by an escaped
  low surrogate gives one code point; a raw control character is an error.
\<close>

definition hex_val :: "nat \<Rightarrow> nat option" where
  "hex_val c =
     (if 48 \<le> c \<and> c \<le> 57 then Some (c - 48)
      else if 97 \<le> c \<and> c \<le> 102 then Some (c - 87)
      else if 65 \<le> c \<and> c \<le> 70 then Some (c - 55)
      else None)"

definition hex4 :: "nat \<Rightarrow> nat \<Rightarrow> nat \<Rightarrow> nat \<Rightarrow> nat option" where
  "hex4 a b c d =
     (case (hex_val a, hex_val b, hex_val c, hex_val d) of
        (Some x, Some y, Some z, Some u) \<Rightarrow> Some (((x * 16 + y) * 16 + z) * 16 + u)
      | _ \<Rightarrow> None)"

definition unescape :: "nat \<Rightarrow> nat option" where
  "unescape e =
     (if e = 34 then Some 34
      else if e = 92 then Some 92
      else if e = 47 then Some 47
      else if e = 98 then Some 8
      else if e = 102 then Some 12
      else if e = 110 then Some 10
      else if e = 114 then Some 13
      else if e = 116 then Some 9
      else None)"

definition push :: "nat \<Rightarrow> (ustr \<times> ustr) option \<Rightarrow> (ustr \<times> ustr) option" where
  "push c r = map_option (\<lambda>(s, rest). (c # s, rest)) r"

definition high_surrogate :: "nat \<Rightarrow> bool" where
  "high_surrogate u \<longleftrightarrow> 0xD800 \<le> u \<and> u \<le> 0xDBFF"

definition low_surrogate :: "nat \<Rightarrow> bool" where
  "low_surrogate u \<longleftrightarrow> 0xDC00 \<le> u \<and> u \<le> 0xDFFF"

fun scanstring :: "ustr \<Rightarrow> (ustr \<times> ustr) option" where
  "scanstring [] = None"
| "scanstring (c # cs) =
     (if c = 34 then Some ([], cs)
      else if c = 92 then
        (case cs of
           [] \<Rightarrow> None
         | e # r \<Rightarrow>
             if e = 117 then
               (case r of
                  a # b # x # y # r1 \<Rightarrow>
                    (case hex4 a b x y of
                       None \<Rightarrow> None
                     | Some u \<Rightarrow>
                         if high_surrogate u then
                           (case r1 of
                              bs # lu # a2 # b2 # x2 # y2 # r2 \<Rightarrow>
                                if bs = 92 \<and> lu = 117 then
                                  (case hex4 a2 b2 x2 y2 of
                                     None \<Rightarrow> None
                                   | Some u2 \<Rightarrow>
                                       if low_surrogate u2
                                       then push (0x10000 + (u - 0xD800) * 1024 + (u2 - 0xDC00))
                                              (scanstring r2)
                                       else push u (scanstring r1))
                                else push u (scanstring r1)
                            | _ \<Rightarrow> push u (scanstring r1))
                         else push u (scanstring r1))
                | _ \<Rightarrow> None)
             else (case unescape e of None \<Rightarrow> None | Some x \<Rightarrow> push x (scanstring r)))
      else if c < 32 then None
      else push c (scanstring cs))"

text \<open>
  A number is an optional minus sign and an integer part; with a fraction or an
  exponent it would be a float.
\<close>

definition is_digit :: "nat \<Rightarrow> bool" where
  "is_digit c \<longleftrightarrow> 48 \<le> c \<and> c \<le> 57"

definition digits_value :: "ustr \<Rightarrow> nat" where
  "digits_value ds = foldl (\<lambda>n c. n * 10 + (c - 48)) 0 ds"

definition int_part :: "ustr \<Rightarrow> ustr" where
  "int_part body = (if body \<noteq> [] \<and> hd body = 48 then [48] else takeWhile is_digit body)"

definition scan_int :: "ustr \<Rightarrow> (int \<times> ustr) option" where
  "scan_int s =
     (let neg = (s \<noteq> [] \<and> hd s = 45);
          body = (if neg then tl s else s);
          ds = int_part body;
          rest = drop (length ds) body
      in if ds = [] then None
         else if rest \<noteq> [] \<and> hd rest \<in> {46, 101, 69} then None
         else Some (if neg then - int (digits_value ds) else int (digits_value ds), rest))"

definition scan_value :: "ustr \<Rightarrow> (pyval \<times> ustr) option" where
  "scan_value s =
     (case s of
        [] \<Rightarrow> None
      | c # cs \<Rightarrow>
          if c = 34 then map_option (\<lambda>(x, r). (PStr x, r)) (scanstring cs)
          else if c = 45 \<or> is_digit c then map_option (\<lambda>(i, r). (PInt i, r)) (scan_int s)
          else None)"

lemma skip_ws_length: "length (skip_ws s) \<le> length s"
  by (simp add: skip_ws_def length_dropWhile_le)

lemma push_Some: "push c r = Some (s, rest) \<Longrightarrow> \<exists>s'. r = Some (s', rest)"
  by (cases r) (auto simp: push_def)

lemma scanstring_step:
  assumes "scanstring (c # cs) = Some (k, r)"
  shows "(c = 34 \<and> r = cs) \<or> (\<exists>t k'. scanstring t = Some (k', r) \<and> length t \<le> length cs)"
proof -
  have rec: "\<exists>t k'. scanstring t = Some (k', r) \<and> length t \<le> length cs"
    if "push x (scanstring t) = Some (k, r)" and "length t \<le> length cs" for x t
    using that push_Some [of x "scanstring t" k r] by blast
  consider (quote) "c = 34" | (esc) "c = 92" | (plain) "c \<noteq> 34" "c \<noteq> 92"
    by blast
  then show ?thesis
  proof cases
    case quote
    then show ?thesis using assms by simp
  next
    case plain
    then have "push c (scanstring cs) = Some (k, r)"
      using assms by (simp split: if_splits)
    then show ?thesis using rec by blast
  next
    case esc
    then obtain e r0 where cs: "cs = e # r0"
      using assms by (cases cs) auto
    show ?thesis
    proof (cases "e = 117")
      case False
      then obtain x where "push x (scanstring r0) = Some (k, r)"
        using assms esc cs by (auto split: option.splits)
      then show ?thesis using rec [of x r0] cs by simp
    next
      case True
      then obtain a b x y r1 u where r0: "r0 = a # b # x # y # r1" and u: "hex4 a b x y = Some u"
        using assms esc cs by (auto split: list.splits option.splits)
      have body: "(if high_surrogate u then
                     (case r1 of
                        bs # lu # a2 # b2 # x2 # y2 # r2 \<Rightarrow>
                          if bs = 92 \<and> lu = 117 then
                            (case hex4 a2 b2 x2 y2 of
                               None \<Rightarrow> None
                             | Some u2 \<Rightarrow>
                                 if low_surrogate u2
                                 then push (0x10000 + (u - 0xD800) * 1024 + (u2 - 0xDC00))
                                        (scanstring r2)
                                 else push u (scanstring r1))
                          else push u (scanstring r1)
                      | _ \<Rightarrow> push u (scanstring r1))
                   else push u (scanstring r1)) = Some (k, r)"
        using assms esc cs True r0 u by simp
      have "\<exists>x t. push x (scanstring t) = Some (k, r) \<and> length t \<le> length r1"
      proof (cases "push u (scanstring r1) = Some (k, r)")
        case True
        then show ?thesis by blast
      next
        case False
        then obtain bs lu a2 b2 x2 y2 r2 u2 where "r1 = bs # lu # a2 # b2 # x2 # y2 # r2"
          and "push (0x10000 + (u - 0xD800) * 1024 + (u2 - 0xDC00)) (scanstring r2) = Some (k, r)"
          using body by (auto split: if_splits list.splits option.splits)
        then show ?thesis by force
      qed
      then show ?thesis using rec cs r0 by fastforce
    qed
  qed
qed

lemma scanstring_length: "scanstring s = Some (k, r) \<Longrightarrow> length r < length s"
proof (induction s arbitrary: k rule: length_induct)
  case (1 s)
  then obtain c cs where s: "s = c # cs"
    by (cases s) auto
  from scanstring_step [of c cs k r] 1(2) s
  consider "r = cs" | t k' where "scanstring t = Some (k', r)" "length t \<le> length cs"
    by blast
  then show ?case
  proof cases
    case 1
    then show ?thesis using s by simp
  next
    case 2
    then have "length r < length t"
      using 1(1) s by (metis le_imp_less_Suc length_Cons)
    then show ?thesis using 2 s by simp
  qed
qed

lemma scan_int_length: "scan_int s = Some (i, r) \<Longrightarrow> length r \<le> length s"
  by (auto simp: scan_int_def Let_def split: if_splits)

lemma scan_value_length: "scan_value s = Some (v, r) \<Longrightarrow> length r \<le> length s"
  by (auto simp: scan_value_def split: list.splits if_splits
      dest!: scanstring_length scan_int_length)

text \<open>
  The members of an object, from behind the opening quote of the first key up to the
  closing brace: key, colon, value, then a comma and the next key, or the brace.
\<close>

function scan_members :: "ustr \<Rightarrow> (pydict \<times> ustr) option" where
  "scan_members s =
     (case scanstring s of
        None \<Rightarrow> None
      | Some (key, s1) \<Rightarrow>
          (case skip_ws s1 of
             [] \<Rightarrow> None
           | c # s2 \<Rightarrow>
               if c \<noteq> 58 then None
               else
                 (case scan_value (skip_ws s2) of
                    None \<Rightarrow> None
                  | Some (v, s3) \<Rightarrow>
                      (case skip_ws s3 of
                         [] \<Rightarrow> None
                       | d # s4 \<Rightarrow>
                           if d = 125 then Some ([(key, v)], s4)
                           else if d = 44 then
                             (case skip_ws s4 of
                                [] \<Rightarrow> None
                              | q # s5 \<Rightarrow>
                                  if q = 34
                                  then map_option (\<lambda>(ps, r). ((key, v) # ps, r)) (scan_members s5)
                                  else None)
                           else None))))"
  by pat_completeness auto
termination
proof (relation "measure length", simp, goal_cases)
  case (1 s x2 key s1 c s2 x2a v s3 d s4 q s5)
  have "length s1 < length s"
    using 1 scanstring_length [of s key s1] by simp
  moreover have "length s2 < length s1"
    using 1 skip_ws_length [of s1] by simp
  moreover have "length s3 \<le> length s2"
    using 1 scan_value_length [of "skip_ws s2" v s3] skip_ws_length [of s2] by simp
  moreover have "length s4 < length s3"
    using 1 skip_ws_length [of s3] by simp
  moreover have "length s5 < length s4"
    using 1 skip_ws_length [of s4] by simp
  ultimately show ?case by simp
qed

declare scan_members.simps [simp del]

text \<open>
  The pairs become a \<open>dict\<close>: a key that comes again keeps its place and takes the
  later value.
\<close>

fun dict_set :: "pydict \<Rightarrow> ustr \<Rightarrow> pyval \<Rightarrow> pydict" where
  "dict_set [] k v = [(k, v)]"
| "dict_set ((k', v') # d) k v = (if k' = k then (k, v) # d else (k', v') # dict_set d k v)"

definition dict_of_pairs :: "(ustr \<times> pyval) list \<Rightarrow> pydict" where
  "dict_of_pairs pairs = foldl (\<lambda>d (k, v). dict_set d k v) [] pairs"

definition json_loads :: "ustr \<Rightarrow> pydict option" where
  "json_loads s =
     (case skip_ws s of
        [] \<Rightarrow> None
      | c # s1 \<Rightarrow>
          if c \<noteq> 123 then None
          else
            (case skip_ws s1 of
               [] \<Rightarrow> None
             | q # s2 \<Rightarrow>
                 if q = 125 then (if skip_ws s2 = [] then Some [] else None)
                 else if q = 34 then
                   (case scan_members s2 of
                      None \<Rightarrow> None
                    | Some (pairs, s3) \<Rightarrow>
                        if skip_ws s3 = [] then Some (dict_of_pairs pairs) else None)
                 else None))"

section \<open>The analysis of one file\<close>

lemma splitlines_Nil: "splitlines [] = []"
  by (simp add: splitlines.simps)

lemma split_ws_Nil: "split_ws [] = []"
  by (simp add: split_ws.simps)

subsection \<open>\<open>splitlines\<close> computes the lines\<close>

lemma splitlines_break:
  "is_linebreak c \<Longrightarrow> splitlines (c # cs) = [] # splitlines (skip_break (c # cs))"
  by (subst splitlines.simps) simp

lemma splitlines_char:
  "\<not> is_linebreak c \<Longrightarrow> splitlines (c # cs) = cons_first c (splitlines cs)"
  by (cases cs) (simp_all add: splitlines.simps [of "c # cs"] splitlines.simps [of "_ # _"] splitlines.simps [of "[]"])

lemma line_segments_ne: "line_segments B s \<noteq> []"
  by (induction B s rule: line_segments.induct) (auto split: if_splits elim: cons_first.elims)

lemma drop_final_empty_Cons:
  "X \<noteq> [] \<Longrightarrow> drop_final_empty ([] # X) = [] # drop_final_empty X"
  by (simp add: drop_final_empty_def)

lemma drop_final_empty_cons_first:
  "X \<noteq> [] \<Longrightarrow> drop_final_empty (cons_first c X) = cons_first c (drop_final_empty X)"
  by (cases X) (auto simp: drop_final_empty_def)

lemma line_segments_break:
  "B c \<Longrightarrow> B = is_linebreak \<Longrightarrow> line_segments B (c # cs) = [] # line_segments B (skip_break (c # cs))"
  by (cases cs) (auto simp: is_linebreak_def)

lemma line_segments_char:
  "\<not> B c \<Longrightarrow> line_segments B (c # cs) = cons_first c (line_segments B cs)"
  by (cases cs) auto

lemma splitlines_lines_of: "splitlines s = lines_of is_linebreak s"
proof (induction s rule: length_induct)
  case (1 s)
  show ?case
  proof (cases s)
    case Nil
    then show ?thesis by (simp add: splitlines_Nil lines_of_def drop_final_empty_def)
  next
    case (Cons c cs)
    show ?thesis
    proof (cases "is_linebreak c")
      case True
      have "length (skip_break (c # cs)) < length s"
        using Cons length_skip_break [of "c # cs"] by (auto split: list.splits if_splits)
      then have "splitlines (skip_break (c # cs)) = lines_of is_linebreak (skip_break (c # cs))"
        using 1 by blast
      then show ?thesis
        using True Cons
        by (simp add: splitlines_break line_segments_break lines_of_def drop_final_empty_Cons
            line_segments_ne del: skip_break.simps)
    next
      case False
      have "splitlines cs = lines_of is_linebreak cs"
        using 1 Cons by simp
      then show ?thesis
        using False Cons
        by (simp add: splitlines_char line_segments_char lines_of_def
            drop_final_empty_cons_first line_segments_ne)
    qed
  qed
qed

lemma splitlines_translate: "splitlines (translate_newlines s) = splitlines s"
proof (induction s rule: translate_newlines.induct)
  case 1
  then show ?case by simp
next
  case (2 c)
  then show ?case
    by (simp add: splitlines_break is_linebreak_def)
next
  case (3 c d cs)
  show ?case
  proof (cases "c = 13")
    case True
    then show ?thesis using 3
      by (auto simp: splitlines_break is_linebreak_def)
  next
    case False
    then show ?thesis using 3
      by (cases "is_linebreak c") (auto simp: splitlines_break splitlines_char)
  qed
qed

subsection \<open>\<open>split\<close> computes the whitespace tokens\<close>

lemma split_ws_space: "is_space c \<Longrightarrow> split_ws (c # cs) = split_ws cs"
  by (simp add: split_ws.simps [of "c # cs"] split_ws.simps [of cs])

lemma split_ws_char:
  "\<not> is_space c \<Longrightarrow>
   split_ws (c # cs) =
     (c # takeWhile (\<lambda>c. \<not> is_space c) cs) # split_ws (dropWhile (\<lambda>c. \<not> is_space c) cs)"
  by (simp add: split_ws.simps [of "c # cs"])

lemma split_at_ne: "split_at P s \<noteq> []"
  by (induction s) (auto elim: cons_first.elims)

lemma split_at_takeWhile:
  "split_at P s =
     takeWhile (\<lambda>c. \<not> P c) s
       # (case dropWhile (\<lambda>c. \<not> P c) s of [] \<Rightarrow> [] | x # r \<Rightarrow> split_at P r)"
  by (induction s) auto

lemma split_ws_tokens: "split_ws s = whitespace_tokens s"
proof (induction s rule: length_induct)
  case (1 s)
  show ?case
  proof (cases s)
    case Nil
    then show ?thesis by (simp add: split_ws_Nil whitespace_tokens_def)
  next
    case (Cons c cs)
    show ?thesis
    proof (cases "is_space c")
      case True
      then show ?thesis
        using 1 Cons by (simp add: split_ws_space whitespace_tokens_def)
    next
      case False
      let ?d = "dropWhile (\<lambda>c. \<not> is_space c) cs"
      have len: "length ?d < length s"
        using Cons length_dropWhile_le [of "\<lambda>c. \<not> is_space c" cs] by simp
      have "split_ws ?d = filter (\<lambda>t. t \<noteq> []) (case ?d of [] \<Rightarrow> [] | x # r \<Rightarrow> split_at is_space r)"
      proof (cases ?d)
        case Nil
        show ?thesis unfolding Nil by (simp add: split_ws_Nil)
      next
        case (Cons x r)
        then have "is_space x"
          using hd_dropWhile [of "\<lambda>c. \<not> is_space c" cs] by auto
        moreover have "length r < length s"
          using len Cons by simp
        ultimately show ?thesis
          using 1 Cons by (simp add: split_ws_space whitespace_tokens_def)
      qed
      moreover have "split_at is_space (c # cs) =
          (c # takeWhile (\<lambda>c. \<not> is_space c) cs)
            # (case ?d of [] \<Rightarrow> [] | x # r \<Rightarrow> split_at is_space r)"
        using False by (subst split_at_takeWhile) simp
      ultimately show ?thesis
        using False Cons
        by (simp add: split_ws_char whitespace_tokens_def del: split_at.simps)
    qed
  qed
qed

lemma filter_hd_tl:
  "X \<noteq> [] \<Longrightarrow> filter Q X = filter Q [hd X] @ filter Q (tl X)"
  by (cases X) auto

lemma split_at_translate:
  "hd (split_at is_space (translate_newlines s)) = hd (split_at is_space s)
   \<and> filter (\<lambda>t. t \<noteq> []) (tl (split_at is_space (translate_newlines s)))
       = filter (\<lambda>t. t \<noteq> []) (tl (split_at is_space s))"
proof (induction s rule: translate_newlines.induct)
  case 1
  then show ?case by simp
next
  case (2 c)
  then show ?case by (simp add: is_space_def)
next
  case (3 c d cs)
  have sp: "is_space 10" "is_space 13"
    by (simp_all add: is_space_def)
  have whole: "filter (\<lambda>t. t \<noteq> []) (split_at is_space (translate_newlines u))
               = filter (\<lambda>t. t \<noteq> []) (split_at is_space u)"
    if "hd (split_at is_space (translate_newlines u)) = hd (split_at is_space u)
        \<and> filter (\<lambda>t. t \<noteq> []) (tl (split_at is_space (translate_newlines u)))
            = filter (\<lambda>t. t \<noteq> []) (tl (split_at is_space u))" for u
    using that filter_hd_tl [OF split_at_ne, of "\<lambda>t. t \<noteq> []" is_space "translate_newlines u"]
      filter_hd_tl [OF split_at_ne, of "\<lambda>t. t \<noteq> []" is_space u]
    by simp
  have cf: "hd (cons_first c X) = c # hd X \<and> tl (cons_first c X) = tl X" if "X \<noteq> []" for X
    using that by (cases X) auto
  show ?case
  proof (cases "c = 13")
    case True
    then show ?thesis
      using 3 sp whole [of cs] whole [of "d # cs"] by auto
  next
    case False
    then show ?thesis
      using 3 cf [OF split_at_ne, of is_space "translate_newlines (d # cs)"]
        cf [OF split_at_ne, of is_space "d # cs"] whole [of "d # cs"]
      by (cases "is_space c") (simp_all del: translate_newlines.simps split_at.simps
          add: translate_newlines.simps(3) [of c d cs] split_at.simps(2) [of is_space c])
  qed
qed

lemma tokens_translate: "whitespace_tokens (translate_newlines s) = whitespace_tokens s"
  using split_at_translate [of s]
    filter_hd_tl [OF split_at_ne, of "\<lambda>t. t \<noteq> []" is_space "translate_newlines s"]
    filter_hd_tl [OF split_at_ne, of "\<lambda>t. t \<noteq> []" is_space s]
  by (simp add: whitespace_tokens_def)

subsection \<open>The length after newline translation\<close>

lemma crlf_count_Cons: "d \<noteq> 13 \<Longrightarrow> crlf_count (d # cs) = crlf_count cs"
  by (cases cs) auto

lemma length_translate: "length (translate_newlines s) + crlf_count s = length s"
  by (induction s rule: translate_newlines.induct) (auto simp: crlf_count_Cons)

subsection \<open>The result of \<open>process_file\<close>\<close>

lemma read_text_put_file:
  "read_text (put_file w p bs) p =
     (case utf8_decode bs of None \<Rightarrow> Inl UnicodeDecodeError
      | Some s \<Rightarrow> Inr (translate_newlines s))"
  by (simp add: read_text_def put_file_def put_node_def)

lemma read_text_read_only: "read_text (read_only w) p = read_text w p"
  by (simp add: read_text_def read_only_def split: option.splits)

lemma str_path_put_file: "str_path (put_file w p bs) = str_path w"
  by (simp add: put_file_def put_node_def)

lemma process_file_snd:
  "snd (process_file w debug p) =
     (case read_text w p of
        Inl e \<Rightarrow> Inl e
      | Inr content \<Rightarrow>
          Inr (analysis_result (str_path w p) (int (length (splitlines content)))
                 (int (length (split_ws content))) (int (length content))))"
  by (simp add: process_file_def analysis_result_def Let_def split: sum.splits)

lemma process_file_fst_quiet: "fst (process_file w False p) = []"
  by (simp add: process_file_def log_debug_def Let_def split: sum.splits)

lemma sample_text: "read_text (put_file w p sample) p = Inr [97, 32, 98, 10, 99, 100, 10]"
  by (simp add: read_text_put_file sample_def)

lemma sample_lines: "splitlines [97, 32, 98, 10, 99, 100, 10] = [[97, 32, 98], [99, 100]]"
  by (simp add: splitlines.simps is_linebreak_def)

lemma sample_words: "split_ws [97, 32, 98, 10, 99, 100, 10] = [[97], [98], [99, 100]]"
  by (simp add: split_ws.simps is_space_def)

text \<open>The six bytes of \<open>"a\r\nb\fc"\<close>: a Windows line ending and a form feed.\<close>

definition mixed :: "byte list" where
  "mixed = [0x61, 0x0D, 0x0A, 0x62, 0x0C, 0x63]"

lemma mixed_decoded: "utf8_decode mixed = Some [97, 13, 10, 98, 12, 99]"
  by (simp add: mixed_def)

lemma mixed_result:
  "snd (process_file (put_file w p mixed) debug p) = Inr (analysis_result (str_path w p) 3 3 5)"
proof -
  have "read_text (put_file w p mixed) p = Inr [97, 10, 98, 12, 99]"
    by (simp add: read_text_put_file mixed_decoded)
  moreover have "splitlines [97, 10, 98, 12, 99] = [[97], [98], [99]]"
    by (simp add: splitlines.simps is_linebreak_def)
  moreover have "split_ws [97, 10, 98, 12, 99] = [[97], [98], [99]]"
    by (simp add: split_ws.simps is_space_def)
  ultimately show ?thesis
    by (simp add: process_file_snd str_path_put_file)
qed

text \<open>
  Claim C1, amended. For every file content that decodes as UTF-8, \<open>lines\<close> is the
  number of segments between the line boundaries of \<open>str.splitlines\<close> (\<open>\n\<close>,
  \<open>\r\n\<close>, \<open>\r\<close> and also \<open>\v\<close>, \<open>\f\<close>, \<open>\x1c\<close>, \<open>\x1d\<close>, \<open>\x1e\<close>, \<open>\x85\<close>,
  U+2028, U+2029), with no empty segment after a final boundary; \<open>words\<close> is the
  number of non-empty tokens of a split at Unicode whitespace; \<open>characters\<close> is the
  number of decoded code points, each \<open>\r\n\<close> pair counted once (the text is read
  with universal newlines, which turns the pair into one \<open>\n\<close>).
\<close>

theorem analysis_counts:
  assumes "nodes w p = Some n" and "node_read n = Inr bs" and "utf8_decode bs = Some decoded"
  shows "snd (process_file w debug p) =
           Inr (analysis_result (str_path w p)
                  (int (length (lines_of is_linebreak decoded)))
                  (int (length (whitespace_tokens decoded)))
                  (int (length decoded) - int (crlf_count decoded)))"
proof -
  have "read_text w p = Inr (translate_newlines decoded)"
    using assms by (simp add: read_text_def)
  moreover have "length (splitlines (translate_newlines decoded))
                   = length (lines_of is_linebreak decoded)"
    using splitlines_translate [of decoded] by (simp add: splitlines_lines_of)
  moreover have "length (split_ws (translate_newlines decoded)) = length (whitespace_tokens decoded)"
    by (simp only: split_ws_tokens tokens_translate)
  moreover have "int (length (translate_newlines decoded))
                   = int (length decoded) - int (crlf_count decoded)"
    using length_translate [of decoded] by simp
  ultimately show ?thesis
    by (simp add: process_file_snd)
qed

theorem analysis_counts_witness:
  "snd (process_file (put_file quiet_world (ascii ''notes.txt'') mixed) False (ascii ''notes.txt''))
     = Inr (analysis_result (ascii ''notes.txt'') 3 3 5)"
proof -
  let ?w = "put_file quiet_world (ascii ''notes.txt'') mixed"
  have n: "nodes ?w (ascii ''notes.txt'')
             = Some \<lparr>node_kind = RegularFile, node_read = Inr mixed\<rparr>"
    by (simp add: put_file_def put_node_def)
  have r: "node_read \<lparr>node_kind = RegularFile, node_read = Inr mixed\<rparr> = Inr mixed"
    by simp
  have l: "lines_of is_linebreak [97, 13, 10, 98, 12, 99] = [[97], [98], [99]]"
    by (simp add: lines_of_def drop_final_empty_def is_linebreak_def)
  have t: "whitespace_tokens [97, 13, 10, 98, 12, 99] = [[97], [98], [99]]"
    by (simp add: whitespace_tokens_def is_space_def)
  show ?thesis
    using analysis_counts [OF n r mixed_decoded, of False]
    by (simp add: l t str_path_put_file quiet_world_def)
qed

text \<open>
  As stated, with \<open>\n\<close>, \<open>\r\n\<close> and \<open>\r\<close> as the only separators and with every
  decoded code point counted, the property fails on \<open>"a\r\nb\fc"\<close>: the analyzer
  reports 3 lines and 5 characters, the statement asks for 2 and 6.
\<close>

theorem analysis_counts_counterexample:
  "utf8_decode mixed = Some [97, 13, 10, 98, 12, 99]
   \<and> snd (process_file (put_file quiet_world (ascii ''notes.txt'') mixed) False
            (ascii ''notes.txt''))
       = Inr (analysis_result (ascii ''notes.txt'') 3 3 5)
   \<and> length (lines_of universal_newline [97, 13, 10, 98, 12, 99]) = 2
   \<and> length [97, 13, 10, 98, 12, 99 :: nat] = 6"
proof -
  have "lines_of universal_newline [97, 13, 10, 98, 12, 99] = [[97], [98, 12, 99]]"
    by (simp add: lines_of_def drop_final_empty_def universal_newline_def)
  then show ?thesis
    by (simp add: mixed_decoded mixed_result quiet_world_def)
qed

text \<open>
  Claim C2. For the content \<open>"a b\ncd\n"\<close> the analyzer returns lines = 2, words = 3,
  characters = 7 and status = "success", whatever the path and the rest of the world.
\<close>

theorem example_counts:
  "snd (process_file (put_file w p sample) debug p) =
     Inr [(ascii ''file'', PStr (str_path w p)), (ascii ''lines'', PInt 2),
          (ascii ''words'', PInt 3), (ascii ''characters'', PInt 7),
          (ascii ''encoding'', PStr (ascii ''utf-8'')),
          (ascii ''status'', PStr (ascii ''success''))]"
  by (simp add: process_file_snd sample_text sample_lines sample_words str_path_put_file
      analysis_result_def)

section \<open>Text output\<close>

lemma split_at_no_sep: "\<forall>c\<in>set a. \<not> P c \<Longrightarrow> split_at P a = [a]"
  by (induction a) auto

lemma split_at_append_sep:
  "\<forall>c\<in>set a. \<not> P c \<Longrightarrow> P x \<Longrightarrow> split_at P (a @ x # r) = a # split_at P r"
  by (induction a) auto

lemma digits_range: "c \<in> set (digits n) \<Longrightarrow> 48 \<le> c \<and> c \<le> 57"
proof (induction n rule: digits.induct)
  case (1 n)
  show ?case
  proof (cases "n < 10")
    case True
    with "1.prems" show ?thesis by (simp add: digits.simps [of n])
  next
    case False
    with "1.prems" "1.IH" show ?thesis
      by (auto simp: digits.simps [of n])
  qed
qed

lemma str_int_no_newline: "10 \<notin> set (str_int i)"
  using digits_range [of 10] by (auto simp: str_int_def)

text \<open>
  Claim C4, amended. The text output is the six items \<open>key: value\<close>, in the order
  file, lines, words, characters, encoding, status, joined by single line feeds, with
  \<open>str\<close> of each value; it has exactly these six lines whenever the file path holds
  no line feed.
\<close>

theorem text_lines:
  assumes "10 \<notin> set file"
  shows "split_at (\<lambda>c. c = 10) (output_text (analysis_result file l w c)) =
           [ascii ''file: '' @ file, ascii ''lines: '' @ str_int l, ascii ''words: '' @ str_int w,
            ascii ''characters: '' @ str_int c, ascii ''encoding: utf-8'',
            ascii ''status: success'']"
proof -
  let ?P = "\<lambda>c::nat. c = 10"
  have 1: "\<forall>x\<in>set (ascii ''file: '' @ file). \<not> ?P x"
    using assms by (auto simp: ascii_def)
  have 2: "\<forall>x\<in>set (ascii ''lines: '' @ str_int l). \<not> ?P x"
    using str_int_no_newline [of l] by (auto simp: ascii_def)
  have 3: "\<forall>x\<in>set (ascii ''words: '' @ str_int w). \<not> ?P x"
    using str_int_no_newline [of w] by (auto simp: ascii_def)
  have 4: "\<forall>x\<in>set (ascii ''characters: '' @ str_int c). \<not> ?P x"
    using str_int_no_newline [of c] by (auto simp: ascii_def)
  have 5: "\<forall>x\<in>set (ascii ''encoding: utf-8''). \<not> ?P x"
    by (auto simp: ascii_def)
  have 6: "\<forall>x\<in>set (ascii ''status: success''). \<not> ?P x"
    by (auto simp: ascii_def)
  have "output_text (analysis_result file l w c) =
          (ascii ''file: '' @ file) @ 10 # (ascii ''lines: '' @ str_int l) @ 10
            # (ascii ''words: '' @ str_int w) @ 10 # (ascii ''characters: '' @ str_int c) @ 10
            # ascii ''encoding: utf-8'' @ 10 # ascii ''status: success''"
    by (simp add: output_text_def analysis_result_def ascii_def)
  then show ?thesis
    by (simp only: split_at_append_sep [OF 1] split_at_append_sep [OF 2]
        split_at_append_sep [OF 3] split_at_append_sep [OF 4] split_at_append_sep [OF 5]
        split_at_no_sep [OF 6])
qed

theorem text_lines_witness:
  "split_at (\<lambda>c. c = 10) (output_text (analysis_result (ascii ''data.txt'') 2 3 7)) =
     [ascii ''file: data.txt'', ascii ''lines: 2'', ascii ''words: 3'',
      ascii ''characters: 7'', ascii ''encoding: utf-8'', ascii ''status: success'']"
proof -
  have "10 \<notin> set (ascii ''data.txt'')"
    by (simp add: ascii_def)
  from text_lines [OF this, of 2 3 7] show ?thesis
    by (simp add: str_int_def digits.simps ascii_def)
qed

text \<open>
  As stated, for every result, the property fails for a file whose name holds a line
  feed: the analysis of the empty file \<open>"a\nb"\<close> is printed on seven lines.
\<close>

theorem text_lines_counterexample:
  "snd (process_file (put_file quiet_world [97, 10, 98] []) False [97, 10, 98])
     = Inr (analysis_result [97, 10, 98] 0 0 0)
   \<and> length (split_at (\<lambda>c. c = 10) (output_text (analysis_result [97, 10, 98] 0 0 0))) = 7"
proof -
  have "read_text (put_file quiet_world [97, 10, 98] []) [97, 10, 98] = Inr []"
    by (simp add: read_text_put_file)
  then have "snd (process_file (put_file quiet_world [97, 10, 98] []) False [97, 10, 98])
     = Inr (analysis_result [97, 10, 98] 0 0 0)"
    by (simp add: process_file_snd splitlines_Nil split_ws_Nil str_path_put_file quiet_world_def)
  moreover have
    "length (split_at (\<lambda>c. c = 10) (output_text (analysis_result [97, 10, 98] 0 0 0))) = 7"
    by (simp add: output_text_def analysis_result_def str_int_def digits.simps ascii_def)
  ultimately show ?thesis by simp
qed

section \<open>JSON output\<close>

subsection \<open>Strings\<close>

lemma hex_val_hex_digit: "n < 16 \<Longrightarrow> hex_val (hex_digit n) = Some n"
  by (auto simp: hex_val_def hex_digit_def)

lemma hex4_control: "c < 32 \<Longrightarrow> hex4 48 48 (hex_digit (c div 16)) (hex_digit (c mod 16)) = Some c"
proof -
  assume c: "c < 32"
  have "hex_val 48 = Some 0" by (simp add: hex_val_def)
  moreover have "hex_val (hex_digit (c div 16)) = Some (c div 16)"
    using c by (intro hex_val_hex_digit) simp
  moreover have "hex_val (hex_digit (c mod 16)) = Some (c mod 16)"
    by (intro hex_val_hex_digit) simp
  ultimately show ?thesis by (simp add: hex4_def)
qed

lemma scanstring_escape_char: "scanstring (escape_char c @ r) = push c (scanstring r)"
proof -
  consider "c = 34" | "c = 92" | "c = 8" | "c = 12" | "c = 10" | "c = 13" | "c = 9"
    | "c < 32" "c \<notin> {8, 9, 10, 12, 13}" | "32 \<le> c" "c \<noteq> 34" "c \<noteq> 92"
    by fastforce
  then show ?thesis
  proof cases
    case 8
    then have "escape_char c = [92, 117, 48, 48, hex_digit (c div 16), hex_digit (c mod 16)]"
      by (auto simp: escape_char_def)
    moreover have "\<not> high_surrogate c"
      using 8 by (simp add: high_surrogate_def)
    ultimately show ?thesis
      using hex4_control [OF 8(1)] by simp
  next
    case 9
    then have "escape_char c = [c]"
      by (auto simp: escape_char_def)
    then show ?thesis using 9 by simp
  qed (simp_all add: escape_char_def unescape_def)
qed

lemma scanstring_escaped:
  "scanstring (concat (map escape_char s) @ 34 # r) = Some (s, r)"
  by (induction s) (simp_all add: scanstring_escape_char push_def del: scanstring.simps, simp)

subsection \<open>Integers\<close>

lemma digits_ne: "digits n \<noteq> []"
  by (subst digits.simps) simp

lemma digits_is_digit: "c \<in> set (digits n) \<Longrightarrow> is_digit c"
proof (induction n rule: digits.induct)
  case (1 n)
  show ?case
  proof (cases "n < 10")
    case True
    with "1.prems" show ?thesis by (simp add: digits.simps [of n] is_digit_def)
  next
    case False
    with "1.prems" "1.IH" show ?thesis
      by (auto simp: digits.simps [of n] is_digit_def)
  qed
qed

lemma hd_digits: "hd (digits n) = 48 \<longleftrightarrow> n = 0"
proof (induction n rule: digits.induct)
  case (1 n)
  show ?case
  proof (cases "n < 10")
    case True
    then show ?thesis by (simp add: digits.simps [of n])
  next
    case False
    then have "hd (digits n) = hd (digits (n div 10))"
      by (simp add: digits.simps [of n] digits_ne)
    with False "1.IH" show ?thesis by auto
  qed
qed

lemma digits_value_snoc: "digits_value (ds @ [d]) = digits_value ds * 10 + (d - 48)"
  by (simp add: digits_value_def)

lemma digits_value_digits: "digits_value (digits n) = n"
proof (induction n rule: digits.induct)
  case (1 n)
  show ?case
  proof (cases "n < 10")
    case True
    then show ?thesis by (simp add: digits.simps [of n] digits_value_def)
  next
    case False
    with "1.IH" show ?thesis
      by (simp add: digits.simps [of n] digits_value_snoc)
  qed
qed

lemma takeWhile_digits:
  assumes "r = [] \<or> \<not> is_digit (hd r)"
  shows "takeWhile is_digit (digits n @ r) = digits n"
proof -
  have "takeWhile is_digit r = []"
    using assms by (cases r) auto
  then show ?thesis
    using digits_is_digit [of _ n] by (simp add: takeWhile_append2)
qed

definition ends_number :: "ustr \<Rightarrow> bool" where
  "ends_number r \<longleftrightarrow> r = [] \<or> (\<not> is_digit (hd r) \<and> hd r \<notin> {46, 101, 69})"

lemma int_part_digits:
  assumes "ends_number r"
  shows "int_part (digits n @ r) = digits n"
proof (cases "n = 0")
  case True
  then show ?thesis by (simp add: int_part_def digits.simps [of 0])
next
  case False
  then have "hd (digits n @ r) \<noteq> 48"
    using hd_digits [of n] digits_ne [of n] by simp
  moreover have "takeWhile is_digit (digits n @ r) = digits n"
    using assms by (intro takeWhile_digits) (auto simp: ends_number_def)
  ultimately show ?thesis by (simp add: int_part_def)
qed

lemma scan_int_str_int:
  assumes "ends_number r"
  shows "scan_int (str_int i @ r) = Some (i, r)"
proof -
  have hd45: "hd (digits m @ r) \<noteq> 45" for m
    using digits_is_digit [of "hd (digits m)" m] digits_ne [of m]
    by (auto simp: is_digit_def)
  have stop: "\<not> (r \<noteq> [] \<and> hd r \<in> {46, 101, 69})"
    using assms by (auto simp: ends_number_def)
  show ?thesis
  proof (cases "i < 0")
    case True
    then have s: "str_int i @ r = 45 # digits (nat (- i)) @ r"
      by (simp add: str_int_def)
    show ?thesis
      unfolding s scan_int_def
      using stop True digits_ne [of "nat (- i)"]
      by (simp add: Let_def digits_value_digits int_part_digits [OF assms])
  next
    case False
    then have s: "str_int i @ r = digits (nat i) @ r"
      by (simp add: str_int_def)
    show ?thesis
      unfolding s scan_int_def
      using stop False digits_ne [of "nat i"] hd45 [of "nat i"]
      by (simp add: Let_def digits_value_digits int_part_digits [OF assms])
  qed
qed

subsection \<open>Values\<close>

lemma str_int_head: "str_int i \<noteq> [] \<and> (hd (str_int i) = 45 \<or> is_digit (hd (str_int i)))"
  using digits_ne [of "nat i"] digits_is_digit [of "hd (digits (nat i))" "nat i"]
  by (auto simp: str_int_def)

lemma scan_value_json_value:
  assumes "ends_number r"
  shows "scan_value (json_value v @ r) = Some (v, r)"
proof (cases v)
  case (PStr s)
  then show ?thesis
    by (simp add: scan_value_def json_string_def scanstring_escaped)
next
  case (PInt i)
  obtain c cs where c: "str_int i = c # cs" and h: "c = 45 \<or> is_digit c"
    using str_int_head [of i] by (cases "str_int i") auto
  have "c \<noteq> 34"
    using h by (auto simp: is_digit_def)
  then have "scan_value (str_int i @ r) = map_option (\<lambda>(i, r). (PInt i, r)) (scan_int (str_int i @ r))"
    using h by (auto simp: scan_value_def c)
  then show ?thesis
    using PInt scan_int_str_int [OF assms, of i] by simp
qed

subsection \<open>Objects\<close>

lemma skip_ws_nonws: "\<not> is_json_ws c \<Longrightarrow> skip_ws (c # r) = c # r"
  by (simp add: skip_ws_def)

lemma skip_ws_indent: "skip_ws (10 # 32 # 32 # r) = skip_ws r"
  by (simp add: skip_ws_def is_json_ws_def)

lemma skip_ws_space: "skip_ws (32 # r) = skip_ws r"
  by (simp add: skip_ws_def is_json_ws_def)

lemma json_value_head: "\<exists>c cs. json_value v = c # cs \<and> \<not> is_json_ws c"
proof (cases v)
  case (PStr s)
  then show ?thesis by (simp add: json_string_def is_json_ws_def)
next
  case (PInt i)
  then show ?thesis
    using str_int_head [of i] by (cases "str_int i") (auto simp: is_json_ws_def is_digit_def)
qed

lemma skip_ws_json_value: "skip_ws (json_value v @ r) = json_value v @ r"
  using json_value_head [of v] by (auto simp: skip_ws_nonws)

text \<open>One item, read from just behind the opening quote of its key.\<close>

definition item_tail :: "ustr \<times> pyval \<Rightarrow> ustr" where
  "item_tail kv = concat (map escape_char (fst kv)) @ 34 # 58 # 32 # json_value (snd kv)"

lemma json_item_tail: "json_item kv = 34 # item_tail kv"
  by (simp add: json_item_def item_tail_def json_string_def ascii_def)

lemma scan_members_last:
  "scan_members (item_tail (k, v) @ 10 # 125 # r) = Some ([(k, v)], r)"
proof -
  have e: "ends_number (10 # 125 # r)"
    by (simp add: ends_number_def is_digit_def)
  have 1: "scanstring (item_tail (k, v) @ 10 # 125 # r)
           = Some (k, 58 # 32 # json_value v @ 10 # 125 # r)"
    using scanstring_escaped [of k "58 # 32 # json_value v @ 10 # 125 # r"]
    by (simp add: item_tail_def)
  have 2: "skip_ws (58 # 32 # json_value v @ 10 # 125 # r) = 58 # 32 # json_value v @ 10 # 125 # r"
    by (simp add: skip_ws_nonws is_json_ws_def)
  have 3: "skip_ws (32 # json_value v @ 10 # 125 # r) = json_value v @ 10 # 125 # r"
    by (simp add: skip_ws_space skip_ws_json_value)
  have 4: "skip_ws (10 # 125 # r) = 125 # r"
    by (simp add: skip_ws_def is_json_ws_def)
  show ?thesis
    by (subst scan_members.simps) (simp add: 1 2 3 4 scan_value_json_value [OF e])
qed

lemma scan_members_more:
  assumes "scan_members (t @ r) = Some (d, r')"
  shows "scan_members (item_tail (k, v) @ 44 # 10 # 32 # 32 # 34 # t @ r) = Some ((k, v) # d, r')"
proof -
  let ?rest = "44 # 10 # 32 # 32 # 34 # t @ r"
  have e: "ends_number ?rest"
    by (simp add: ends_number_def is_digit_def)
  have 1: "scanstring (item_tail (k, v) @ ?rest) = Some (k, 58 # 32 # json_value v @ ?rest)"
    using scanstring_escaped [of k "58 # 32 # json_value v @ ?rest"]
    by (simp add: item_tail_def)
  have 2: "skip_ws (58 # 32 # json_value v @ ?rest) = 58 # 32 # json_value v @ ?rest"
    by (simp add: skip_ws_nonws is_json_ws_def)
  have 3: "skip_ws (32 # json_value v @ ?rest) = json_value v @ ?rest"
    by (simp add: skip_ws_space skip_ws_json_value)
  have 4: "skip_ws ?rest = ?rest"
    by (simp add: skip_ws_nonws is_json_ws_def)
  have 5: "skip_ws (10 # 32 # 32 # 34 # t @ r) = 34 # t @ r"
    by (simp add: skip_ws_indent skip_ws_nonws is_json_ws_def)
  show ?thesis
    by (subst scan_members.simps) (simp add: 1 2 3 4 5 scan_value_json_value [OF e] assms)
qed

lemma join_items:
  "d \<noteq> [] \<Longrightarrow>
   \<exists>t. join [44, 10, 32, 32] (map json_item d) = 34 # t
       \<and> scan_members (t @ 10 # 125 # r) = Some (d, r)"
proof (induction d rule: list_nonempty_induct)
  case (single kv)
  then show ?case
    using scan_members_last [of "fst kv" "snd kv" r] by (simp add: json_item_tail)
next
  case (cons kv d)
  then obtain t where t: "join [44, 10, 32, 32] (map json_item d) = 34 # t"
    and m: "scan_members (t @ 10 # 125 # r) = Some (d, r)"
    by blast
  obtain kv' d' where d: "d = kv' # d'"
    using cons.hyps by (cases d) auto
  have "join [44, 10, 32, 32] (map json_item (kv # d))
        = 34 # item_tail kv @ 44 # 10 # 32 # 32 # 34 # t"
    using t by (simp add: d json_item_tail [of kv])
  moreover have "scan_members ((item_tail kv @ 44 # 10 # 32 # 32 # 34 # t) @ 10 # 125 # r)
        = Some (kv # d, r)"
    using scan_members_more [OF m, of "fst kv" "snd kv"] by simp
  ultimately show ?case by blast
qed

subsection \<open>Dictionaries\<close>

lemma dict_set_fresh: "k \<notin> fst ` set d \<Longrightarrow> dict_set d k v = d @ [(k, v)]"
  by (induction d) auto

lemma foldl_dict_set:
  "distinct (map fst (acc @ d)) \<Longrightarrow>
   foldl (\<lambda>d (k, v). dict_set d k v) acc d = acc @ d"
proof (induction d arbitrary: acc)
  case Nil
  then show ?case by simp
next
  case (Cons kv d)
  obtain k v where kv: "kv = (k, v)" by (cases kv)
  have "k \<notin> fst ` set acc"
    using Cons.prems kv by auto
  then have "dict_set acc k v = acc @ [(k, v)]"
    by (rule dict_set_fresh)
  moreover have "distinct (map fst ((acc @ [(k, v)]) @ d))"
    using Cons.prems kv by simp
  ultimately show ?case
    using Cons.IH [of "acc @ [(k, v)]"] kv by simp
qed

lemma dict_of_pairs_distinct: "distinct (map fst d) \<Longrightarrow> dict_of_pairs d = d"
  using foldl_dict_set [of "[]" d] by (simp add: dict_of_pairs_def)

lemma json_roundtrip:
  assumes "distinct (map fst d)"
  shows "json_loads (output_json d) = Some d"
proof (cases "d = []")
  case True
  then show ?thesis
    by (simp add: output_json_def json_loads_def skip_ws_def is_json_ws_def ascii_def)
next
  case False
  then obtain t where t: "join [44, 10, 32, 32] (map json_item d) = 34 # t"
    and m: "scan_members (t @ 10 # 125 # []) = Some (d, [])"
    using join_items [of d "[]"] by blast
  have o: "output_json d = 123 # 10 # 32 # 32 # 34 # t @ [10, 125]"
    using False t by (simp add: output_json_def ascii_def)
  have 1: "skip_ws (123 # 10 # 32 # 32 # 34 # t @ [10, 125]) = 123 # 10 # 32 # 32 # 34 # t @ [10, 125]"
    by (simp add: skip_ws_nonws is_json_ws_def)
  have 2: "skip_ws (10 # 32 # 32 # 34 # t @ [10, 125]) = 34 # t @ [10, 125]"
    by (simp add: skip_ws_indent skip_ws_nonws is_json_ws_def)
  have 3: "skip_ws [] = []"
    by (simp add: skip_ws_def)
  show ?thesis
    using m by (simp add: o json_loads_def 1 2 3 dict_of_pairs_distinct [OF assms])
qed

text \<open>
  Claim C3. For every result dictionary, with any file string and any three counts,
  reading back the text that \<open>output_json\<close> gives yields the same dictionary: the
  same six keys in the same order with the same values.
\<close>

theorem json_roundtrip_result:
  "json_loads (output_json (analysis_result file lines words characters))
     = Some (analysis_result file lines words characters)"
proof -
  have "distinct (map fst (analysis_result file lines words characters))"
    by (simp add: analysis_result_def ascii_def)
  then show ?thesis by (rule json_roundtrip)
qed

section \<open>Exit codes\<close>

text \<open>
  Claim C5, at the command line \<open>data.txt --format xml\<close>. The value is not among the
  choices, so \<open>parse_args\<close> leaves through \<open>ArgumentParser.error\<close>: the exit status
  is 2, not the 1 that the module's docstring gives for invalid arguments. No file is
  read and nothing is written.
\<close>

theorem invalid_format_exit:
  "main w [Arg (ascii ''data.txt''), Option Format None, Arg (ascii ''xml'')] =
     \<lparr>exit_code = 2, stderr = [USAGE_ERROR], stdout = [], written = []\<rparr>"
  by (simp add: main_def parse_args_def defaults_def set_format_def choices_def ascii_def)

lemma exists_node: "nodes w p = Some n \<Longrightarrow> exists w p = Inr True"
  by (simp add: exists_def)

lemma is_file_node: "nodes w p = Some n \<Longrightarrow> is_file w p = Inr (node_kind n = RegularFile)"
  by (simp add: is_file_def)

lemma is_file_exists: "is_file w p = Inr True \<Longrightarrow> exists w p = Inr True"
  by (auto simp: is_file_def exists_def split: option.splits if_splits)

text \<open>
  When \<open>stat\<close> reports the input path absent, the run logs one error line, exits with
  status 2, prints nothing and writes no file.
\<close>

lemma missing_input_reported:
  assumes "parse_args argv = Namespace a" and "nodes w (input_file a) = None"
    and "ignore_error (stat_errno w (input_file a))"
  shows "main w argv =
           \<lparr>exit_code = 2,
            stderr = [LERROR [Lit ''Input file not found: '', Str (str_path w (input_file a))]],
            stdout = [], written = []\<rparr>"
  using assms by (simp add: main_def run_def exists_def log_error_def)

text \<open>
  Claim C6, at an input path that does not exist because its name is too long (256
  letters). \<open>stat\<close> fails with ENAMETOOLONG, which \<open>Path.exists\<close> raises again, and the
  test stands before the \<open>try\<close>: the run ends with a traceback and status 1, not with
  the error line and the status 2 that the module's docstring gives for an input file
  that is not found. Nothing is printed and no file is written.
\<close>

theorem missing_input_uncaught:
  "main (name_too_long w long_name) [Arg long_name] =
     \<lparr>exit_code = 1, stderr = [TRACEBACK (OSError 36)], stdout = [], written = []\<rparr>"
  by (simp add: main_def parse_args_def defaults_def finish_def run_def exists_def
      name_too_long_def ignore_error_def uncaught_def)

text \<open>
  Claim C7. When the input path exists and is not a regular file, the run logs one
  error line and exits with status 1.
\<close>

theorem not_a_file:
  assumes "parse_args argv = Namespace a" and "nodes w (input_file a) = Some n"
    and "node_kind n \<noteq> RegularFile"
  shows "main w argv =
           \<lparr>exit_code = 1,
            stderr = [LERROR [Lit ''Not a file: '', Str (str_path w (input_file a))]],
            stdout = [], written = []\<rparr>"
  using assms by (simp add: main_def run_def exists_node is_file_node log_error_def)

theorem not_a_file_witness:
  "main (put_node quiet_world (ascii ''docs'')
           \<lparr>node_kind = Directory, node_read = Inl (OSError 21)\<rparr>)
      [Arg (ascii ''docs'')] =
     \<lparr>exit_code = 1, stderr = [LERROR [Lit ''Not a file: '', Str (ascii ''docs'')]],
      stdout = [], written = []\<rparr>"
  using not_a_file [of "[Arg (ascii ''docs'')]"
      "\<lparr>input_file = ascii ''docs'', output_opt = None, format = ascii ''json'',
        verbose = False\<rparr>"
      "put_node quiet_world (ascii ''docs'')
         \<lparr>node_kind = Directory, node_read = Inl (OSError 21)\<rparr>"
      "\<lparr>node_kind = Directory, node_read = Inl (OSError 21)\<rparr>"]
  by (simp add: parse_args_def defaults_def finish_def quiet_world_def put_node_def)

text \<open>
  Claim C8. When the input is a regular file and reading it fails, by an error of the
  operating system or because the bytes are not UTF-8, the run logs the error, exits
  with status 3 and prints the traceback exactly when \<open>DEBUG\<close> is set, by the
  environment or by \<open>--verbose\<close>.
\<close>

theorem read_failure:
  assumes "parse_args argv = Namespace a"
    and "nodes w (input_file a) = Some n" and "node_kind n = RegularFile"
    and "node_read n = Inl e
         \<or> (\<exists>bs. node_read n = Inr bs \<and> utf8_decode bs = None \<and> e = UnicodeDecodeError)"
  shows "main w argv =
           \<lparr>exit_code = 3,
            stderr =
              LINFO [Lit ''Processing '', Str (str_path w (input_file a)), Lit ''...'']
              # log_debug (DEBUG w \<or> verbose a)
                  [Lit ''Processing file: '', Str (str_path w (input_file a))]
              @ [LERROR [Lit ''Processing error: '', ExcStr e]]
              @ (if DEBUG w \<or> verbose a then [TRACEBACK e] else []),
            stdout = [], written = []\<rparr>
         \<and> (TRACEBACK e \<in> set (stderr (main w argv)) \<longleftrightarrow> DEBUG w \<or> verbose a)"
proof -
  have "read_text w (input_file a) = Inl e"
    using assms(2,4) by (auto simp: read_text_def)
  then have run: "run w a =
           \<lparr>exit_code = 3,
            stderr =
              LINFO [Lit ''Processing '', Str (str_path w (input_file a)), Lit ''...'']
              # log_debug (DEBUG w \<or> verbose a)
                  [Lit ''Processing file: '', Str (str_path w (input_file a))]
              @ [LERROR [Lit ''Processing error: '', ExcStr e]]
              @ (if DEBUG w \<or> verbose a then [TRACEBACK e] else []),
            stdout = [], written = []\<rparr>"
    using assms(2,3)
    by (simp add: run_def exists_node is_file_node process_file_def handler_def log_info_def
        log_error_def Let_def)
  have "main w argv = run w a"
    using assms(1) by (simp add: main_def)
  with run show ?thesis
    by (auto simp: log_debug_def)
qed

theorem read_failure_witness:
  "main (put_file quiet_world (ascii ''bad.bin'') [0xFF])
      [Arg (ascii ''bad.bin''), Option Verbose None] =
     \<lparr>exit_code = 3,
      stderr = [LINFO [Lit ''Processing '', Str (ascii ''bad.bin''), Lit ''...''],
                LDEBUG [Lit ''Processing file: '', Str (ascii ''bad.bin'')],
                LERROR [Lit ''Processing error: '', ExcStr UnicodeDecodeError],
                TRACEBACK UnicodeDecodeError],
      stdout = [], written = []\<rparr>"
  using read_failure [of "[Arg (ascii ''bad.bin''), Option Verbose None]"
      "\<lparr>input_file = ascii ''bad.bin'', output_opt = None, format = ascii ''json'',
        verbose = True\<rparr>"
      "put_file quiet_world (ascii ''bad.bin'') [0xFF]"
      "\<lparr>node_kind = RegularFile, node_read = Inr [0xFF]\<rparr>" UnicodeDecodeError]
  by (simp add: parse_args_def defaults_def finish_def quiet_world_def put_file_def put_node_def
      in_range_def log_debug_def)

text \<open>
  Claim C10. When the analysis has succeeded and writing to the output path raises,
  the exception reaches the same \<open>except\<close> clause: the run logs a processing error
  and exits with status 3; nothing is printed and no file is recorded as written.
\<close>

theorem write_failure:
  assumes "parse_args argv = Namespace a"
    and "is_file w (input_file a) = Inr True"
    and "snd (process_file w (DEBUG w \<or> verbose a) (input_file a)) = Inr result"
    and "output_opt a = Some target"
    and "write_fault w target
           (if format a = ascii ''json'' then output_json result else output_text result)
         = Some e"
  shows "main w argv =
           handler (DEBUG w \<or> verbose a)
             (LINFO [Lit ''Processing '', Str (str_path w (input_file a)), Lit ''...'']
              # fst (process_file w (DEBUG w \<or> verbose a) (input_file a))) e
         \<and> exit_code (main w argv) = 3
         \<and> LERROR [Lit ''Processing error: '', ExcStr e] \<in> set (stderr (main w argv))
         \<and> stdout (main w argv) = [] \<and> written (main w argv) = []"
proof -
  have ex: "exists w (input_file a) = Inr True"
    using assms(2) by (rule is_file_exists)
  obtain lg where pf: "process_file w (DEBUG w \<or> verbose a) (input_file a) = (lg, Inr result)"
    using assms(3) by (cases "process_file w (DEBUG w \<or> verbose a) (input_file a)") simp
  have "main w argv = run w a"
    using assms(1) by (simp add: main_def)
  also have "\<dots> = handler (DEBUG w \<or> verbose a)
             (LINFO [Lit ''Processing '', Str (str_path w (input_file a)), Lit ''...''] # lg) e"
    using ex assms(2,4,5) pf by (simp add: run_def log_info_def Let_def)
  finally show ?thesis
    using pf by (simp add: handler_def log_error_def)
qed

theorem write_failure_witness:
  "main (read_only (put_file quiet_world (ascii ''in.txt'') sample))
      [Arg (ascii ''in.txt''), Option Output None, Arg (ascii ''out.json'')] =
     \<lparr>exit_code = 3,
      stderr = [LINFO [Lit ''Processing '', Str (ascii ''in.txt''), Lit ''...''],
                LERROR [Lit ''Processing error: '', ExcStr (OSError 13)]],
      stdout = [], written = []\<rparr>"
proof -
  let ?w = "read_only (put_file quiet_world (ascii ''in.txt'') sample)"
  let ?a = "\<lparr>input_file = ascii ''in.txt'', output_opt = Some (ascii ''out.json''),
             format = ascii ''json'', verbose = False\<rparr>"
  let ?r = "[(ascii ''file'', PStr (ascii ''in.txt'')), (ascii ''lines'', PInt 2),
             (ascii ''words'', PInt 3), (ascii ''characters'', PInt 7),
             (ascii ''encoding'', PStr (ascii ''utf-8'')),
             (ascii ''status'', PStr (ascii ''success''))]"
  have dbg: "\<not> DEBUG ?w"
    by (simp add: DEBUG_def read_only_def put_file_def put_node_def quiet_world_def ascii_def)
  have sp: "str_path ?w = (\<lambda>p. p)"
    by (simp add: read_only_def put_file_def put_node_def quiet_world_def)
  have h1: "parse_args [Arg (ascii ''in.txt''), Option Output None, Arg (ascii ''out.json'')]
            = Namespace ?a"
    by (simp add: parse_args_def defaults_def finish_def)
  have h2: "is_file ?w (input_file ?a) = Inr True"
    by (simp add: is_file_def read_only_def put_file_def put_node_def)
  have h3: "snd (process_file ?w (DEBUG ?w \<or> verbose ?a) (input_file ?a)) = Inr ?r"
    by (simp add: process_file_snd read_text_read_only sample_text sample_lines sample_words sp
        analysis_result_def)
  have h4: "output_opt ?a = Some (ascii ''out.json'')"
    by simp
  have h5: "write_fault ?w (ascii ''out.json'')
              (if format ?a = ascii ''json'' then output_json ?r else output_text ?r)
            = Some (OSError 13)"
    by (simp add: read_only_def)
  show ?thesis
    using write_failure [OF h1 h2 h3 h4 h5] dbg sp
    by (simp add: handler_def log_error_def process_file_fst_quiet)
qed

section \<open>The empty file\<close>






end
